theory Spec2Isabelle
  imports Complex_Main "HOL-Library.AList"
begin

section \<open>Python values\<close>

text \<open>
  A Python \<open>str\<close> is a sequence of Unicode code points, so it is modelled as a list of
  naturals: \<open>ord\<close> and \<open>chr\<close>, which the letter counter of the script uses, are then
  exact (no wrap-around at 256). \<open>str\<close> turns an ASCII literal of the script into its
  code points.
\<close>

type_synonym pystr = "nat list"

definition str :: "string \<Rightarrow> pystr" where
  "str s = map of_char s"

text \<open>
  What \<open>requests.get(url).json()\<close> returns: a JSON value. An object keeps its members
  in insertion order, as a Python \<open>dict\<close> does; a float is kept by its value.
\<close>

datatype json =
    JNull
  | JBool bool
  | JInt int
  | JFloat rat
  | JStr pystr
  | JList "json list"
  | JObj "(pystr \<times> json) list"

type_synonym dict = "(pystr \<times> json) list"

text \<open>
  The exceptions the script can meet. \<open>OtherError\<close> stands for whatever the network or
  the file system raises. \<open>OutsideModel\<close> is not a Python exception: it marks the one
  call whose behaviour the model does not follow (\<open>dict.update\<close> with a non-empty
  list of pairs, which may add keys that are not strings).
\<close>

datatype py_error =
    FileNotFoundError
  | FileExistsError
  | KeyError
  | AttributeError
  | TypeError
  | ValueError
  | OtherError pystr
  | OutsideModel

text \<open>\<open>x.get(k, dflt)\<close>: only a \<open>dict\<close> has the method.\<close>

fun py_get :: "json \<Rightarrow> pystr \<Rightarrow> json \<Rightarrow> py_error + json" where
  "py_get (JObj d) k dflt = Inr (case map_of d k of Some v \<Rightarrow> v | None \<Rightarrow> dflt)"
| "py_get _ k dflt = Inl AttributeError"

text \<open>\<open>for x in v\<close>: a list gives its elements, a string its characters, a dict its
  keys; nothing else of JSON is iterable.\<close>

fun py_iter :: "json \<Rightarrow> py_error + json list" where
  "py_iter (JList xs) = Inr xs"
| "py_iter (JStr s) = Inr (map (\<lambda>c. JStr [c]) s)"
| "py_iter (JObj d) = Inr (map (\<lambda>kv. JStr (fst kv)) d)"
| "py_iter _ = Inl TypeError"

text \<open>The truth value of \<open>if v:\<close>.\<close>

fun truthy :: "json \<Rightarrow> bool" where
  "truthy JNull = False"
| "truthy (JBool b) = b"
| "truthy (JInt i) = (i \<noteq> 0)"
| "truthy (JFloat r) = (r \<noteq> 0)"
| "truthy (JStr s) = (s \<noteq> [])"
| "truthy (JList xs) = (xs \<noteq> [])"
| "truthy (JObj d) = (d \<noteq> [])"

text \<open>
  \<open>s.replace(old, new)\<close> on strings: every occurrence of \<open>old\<close> is replaced, scanning
  from the left and continuing after each replaced occurrence. With an empty \<open>old\<close>
  Python puts \<open>new\<close> before every character and at the end.
\<close>

function py_replace :: "pystr \<Rightarrow> pystr \<Rightarrow> pystr \<Rightarrow> pystr" where
  "py_replace old new s =
     (if old = [] then concat (map (\<lambda>c. new @ [c]) s) @ new
      else if s = [] then []
      else if take (length old) s = old then new @ py_replace old new (drop (length old) s)
      else hd s # py_replace old new (tl s))"
  by pat_completeness auto
termination
  by (relation "measure (\<lambda>(old, new, s). length s)") (auto simp: neq_Nil_conv)

declare py_replace.simps [simp del]

text \<open>\<open>v.replace(old, new)\<close> on a JSON value: only a string has the method.\<close>

fun replace_method :: "json \<Rightarrow> pystr \<Rightarrow> pystr \<Rightarrow> py_error + pystr" where
  "replace_method (JStr s) old new = Inr (py_replace old new s)"
| "replace_method _ old new = Inl AttributeError"

text \<open>\<open>ord(s)\<close> wants a string of length one; \<open>chr(n)\<close> wants \<open>n\<close> below \<open>0x110000\<close>.\<close>

definition py_ord :: "pystr \<Rightarrow> py_error + nat" where
  "py_ord s = (case s of [c] \<Rightarrow> Inr c | _ \<Rightarrow> Inl TypeError)"

definition py_chr :: "nat \<Rightarrow> py_error + pystr" where
  "py_chr n = (if n < 1114112 then Inr [n] else Inl ValueError)"

text \<open>Decimal digits of a natural number, and \<open>str(v)\<close> as \<open>"{}".format(v)\<close> renders
  it. Python's \<open>repr\<close> of floats, lists and dicts is a parameter.\<close>

fun digits :: "nat \<Rightarrow> pystr" where
  "digits n = (if n < 10 then [48 + n] else digits (n div 10) @ [48 + n mod 10])"

declare digits.simps [simp del]

fun py_str :: "(json \<Rightarrow> pystr) \<Rightarrow> json \<Rightarrow> pystr" where
  "py_str rp JNull = str ''None''"
| "py_str rp (JBool b) = (if b then str ''True'' else str ''False'')"
| "py_str rp (JInt i) = (if i < 0 then str ''-'' @ digits (nat (- i)) else digits (nat i))"
| "py_str rp (JStr s) = s"
| "py_str rp v = rp v"

text \<open>
  \<open>d.update(v)\<close> on a dict with string keys: a dict argument sets its members in
  order (\<open>AList.update\<close> replaces in place or appends, as Python does); an empty list
  or an empty string changes nothing; a non-empty string raises \<open>ValueError\<close> (its
  elements have length one, not two); a scalar is not iterable.
\<close>

fun dict_update :: "dict \<Rightarrow> json \<Rightarrow> py_error + dict" where
  "dict_update d (JObj kvs) = Inr (fold (\<lambda>kv. AList.update (fst kv) (snd kv)) kvs d)"
| "dict_update d (JList []) = Inr d"
| "dict_update d (JList (x # xs)) = Inl OutsideModel"
| "dict_update d (JStr s) = (if s = [] then Inr d else Inl ValueError)"
| "dict_update d _ = Inl TypeError"

section \<open>The letter counter and the collector number\<close>

text \<open>The module-level dict \<open>collector_numbers\<close>, passed in and returned.\<close>

type_synonym cns = "pystr \<rightharpoonup> pystr"

definition sentinel :: pystr where
  "sentinel = str ''No_Collector_Number''"

definition retrieve_image_letter :: "cns \<Rightarrow> pystr \<Rightarrow> py_error + (cns \<times> pystr)" where
  "retrieve_image_letter collector_numbers cn =
     (case (case collector_numbers cn of
              Some l \<Rightarrow>
                if l \<noteq> [] then
                  (case py_ord l of Inl e \<Rightarrow> Inl e | Inr n \<Rightarrow> py_chr (n + 1))
                else Inr (str ''A'')
            | None \<Rightarrow> Inr (str ''A'')) of
        Inl e \<Rightarrow> Inl e
      | Inr l' \<Rightarrow> Inr (collector_numbers(cn \<mapsto> l'), l'))"

text \<open>The \<open>for field in obsfields\<close> loop of \<open>retrieve_collector_number\<close>.\<close>

fun find_collector_number :: "json list \<Rightarrow> py_error + pystr" where
  "find_collector_number [] = Inr sentinel"
| "find_collector_number (field # rest) =
     (case py_get field (str ''observation_field'') (JObj []) of
        Inl e \<Rightarrow> Inl e
      | Inr ofield \<Rightarrow>
          (case py_get ofield (str ''name'') (JStr []) of
             Inl e \<Rightarrow> Inl e
           | Inr nm \<Rightarrow>
               if nm = JStr (str ''Collector Number'') then
                 (case py_get field (str ''value'') (JStr sentinel) of
                    Inl e \<Rightarrow> Inl e
                  | Inr v \<Rightarrow> replace_method v (str '' '') (str ''_''))
               else find_collector_number rest))"

definition retrieve_collector_number :: "json \<Rightarrow> py_error + pystr" where
  "retrieve_collector_number obs =
     (case py_get obs (str ''observation_field_values'') (JList []) of
        Inl e \<Rightarrow> Inl e
      | Inr obsfields \<Rightarrow>
          (case py_iter obsfields of
             Inl e \<Rightarrow> Inl e
           | Inr fields \<Rightarrow> find_collector_number fields))"

section \<open>The photo resolver\<close>

text \<open>
  The body of \<open>for photo in photos\<close> (lines 61 to 69): the record built for one photo
  and the letter counter after it. \<open>photo_data['collector_number']\<close>, read back on
  line 68, is the string stored on line 64.
\<close>

definition process_photo :: "json \<Rightarrow> pystr \<Rightarrow> cns \<Rightarrow> json \<Rightarrow> py_error + (cns \<times> dict)" where
  "process_photo obs col_num collector_numbers photo =
     (case py_get photo (str ''observation_id'') JNull of
        Inl e \<Rightarrow> Inl e
      | Inr oid \<Rightarrow>
     (case py_get photo (str ''photo'') (JObj []) of
        Inl e \<Rightarrow> Inl e
      | Inr sub \<Rightarrow>
     (case dict_update [(str ''observation_id'', oid)] sub of
        Inl e \<Rightarrow> Inl e
      | Inr pd1 \<Rightarrow>
     (case replace_method
             (case map_of pd1 (str ''large_url'') of Some v \<Rightarrow> v | None \<Rightarrow> JStr [])
             (str ''large'') (str ''original'') of
        Inl e \<Rightarrow> Inl e
      | Inr osu \<Rightarrow>
     (case retrieve_collector_number obs of
        Inl e \<Rightarrow> Inl e
      | Inr cn \<Rightarrow>
          (let pd2 = AList.update (str ''original_size_url'') (JStr osu) pd1;
               pd3 = AList.update (str ''collector_number'') (JStr cn) pd2
           in if col_num = sentinel then
                (case map_of pd3 (str ''id'') of
                   None \<Rightarrow> Inl KeyError
                 | Some i \<Rightarrow> Inr (collector_numbers, AList.update (str ''photo_identifier'') i pd3))
              else
                (case retrieve_image_letter collector_numbers cn of
                   Inl e \<Rightarrow> Inl e
                 | Inr (collector_numbers', l) \<Rightarrow>
                     Inr (collector_numbers',
                          AList.update (str ''photo_identifier'') (JStr l) pd3))))))))"

fun photo_loop ::
  "json \<Rightarrow> pystr \<Rightarrow> cns \<Rightarrow> dict list \<Rightarrow> json list \<Rightarrow> py_error + (cns \<times> dict list)" where
  "photo_loop obs col_num collector_numbers images [] = Inr (collector_numbers, images)"
| "photo_loop obs col_num collector_numbers images (photo # photos) =
     (case process_photo obs col_num collector_numbers photo of
        Inl e \<Rightarrow> Inl e
      | Inr (collector_numbers', photo_data) \<Rightarrow>
          photo_loop obs col_num collector_numbers' (images @ [photo_data]) photos)"

text \<open>Lines 58 to 69 for one fetched observation.\<close>

definition process_observation ::
  "json \<Rightarrow> cns \<Rightarrow> dict list \<Rightarrow> py_error + (cns \<times> dict list)" where
  "process_observation obs collector_numbers images =
     (case py_get obs (str ''observation_photos'') (JList []) of
        Inl e \<Rightarrow> Inl e
      | Inr photos \<Rightarrow>
     (case retrieve_collector_number obs of
        Inl e \<Rightarrow> Inl e
      | Inr col_num \<Rightarrow>
     (case py_iter photos of
        Inl e \<Rightarrow> Inl e
      | Inr ps \<Rightarrow> photo_loop obs col_num collector_numbers images ps)))"

section \<open>The environment and the effects of a run\<close>

text \<open>
  Everything the script reads from outside, as a record of answers:
  \<open>pd.read_csv('observations.csv')\<close> (the table as its columns),
  \<open>requests.get(url).json()\<close> for the request made after \<open>n\<close> observations were
  processed, \<open>os.mkdir('images')\<close>, \<open>urllib.request.urlretrieve(url, name)\<close> for the
  download made after \<open>n\<close> images were handled, and Python's \<open>repr\<close>.
\<close>

record env =
  read_csv :: "py_error + (pystr \<times> json list) list"
  http_json :: "nat \<Rightarrow> pystr \<Rightarrow> py_error + json"
  mkdir :: "py_error option"
  urlretrieve :: "nat \<Rightarrow> pystr \<Rightarrow> pystr \<Rightarrow> py_error option"
  py_repr :: "json \<Rightarrow> pystr"

text \<open>What a run does, in order, and how it ends.\<close>

datatype event =
    Print pystr
  | HttpGet pystr
  | Sleep
  | Mkdir pystr
  | UrlRetrieve pystr pystr

datatype outcome = Finished | Exited | Raised py_error

text \<open>The loop of lines 55 to 74.\<close>

fun resolver_loop ::
  "env \<Rightarrow> cns \<Rightarrow> dict list \<Rightarrow> nat \<Rightarrow> json list
     \<Rightarrow> event list \<times> (py_error + (cns \<times> dict list \<times> nat))" where
  "resolver_loop env collector_numbers images obs_counter [] =
     ([], Inr (collector_numbers, images, obs_counter))"
| "resolver_loop env collector_numbers images obs_counter (idno # ids) =
     (let url = str ''https://www.inaturalist.org/observations/''
                  @ py_str (py_repr env) idno @ str ''.json''
      in case http_json env obs_counter url of
           Inl e \<Rightarrow> ([HttpGet url], Inl e)
         | Inr obs \<Rightarrow>
             (case process_observation obs collector_numbers images of
                Inl e \<Rightarrow> ([HttpGet url], Inl e)
              | Inr (collector_numbers', images') \<Rightarrow>
                  (case resolver_loop env collector_numbers' images' (obs_counter + 1) ids of
                     (evs, r) \<Rightarrow>
                       ([HttpGet url, Sleep]
                          @ (if (obs_counter + 1) mod 10 = 0 then
                               [Print (digits (obs_counter + 1)
                                  @ str '' observations processed, ''
                                  @ digits (length images')
                                  @ str '' total photo data retrieved'')]
                             else [])
                          @ evs, r))))"

section \<open>The metadata table\<close>

definition keep_columns :: "pystr list" where
  "keep_columns =
     [str ''observation_id'', str ''id'', str ''collector_number'', str ''photo_identifier'',
      str ''created_at'', str ''updated_at'',
      str ''native_page_url'', str ''native_username'', str ''license'', str ''subtype'',
      str ''native_original_image_url'',
      str ''license_code'', str ''attribution'', str ''license_name'', str ''license_url'',
      str ''type'', str ''original_size_url'']"

definition rename_columns :: "(pystr \<times> pystr) list" where
  "rename_columns =
     [(str ''id'', str ''photo_id''),
      (str ''native_page_url'', str ''inaturalist_page_url''),
      (str ''native_username'', str ''inaturalist_username''),
      (str ''native_original_image_url'', str ''original_image_url''),
      (str ''original_size_url'', str ''image_url'')]"

text \<open>
  A pandas \<open>DataFrame\<close>: the column labels and the rows, a cell being a value or
  missing (\<open>NaN\<close>). \<open>pd.DataFrame(images)\<close> on a list of dicts takes the keys in the
  order of their first appearance as columns; \<open>df[labels]\<close> raises \<open>KeyError\<close> when a
  label is not a column; \<open>df.rename(columns=m)\<close> relabels.
\<close>

record dataframe =
  columns :: "pystr list"
  rows :: "json option list list"

definition frame_columns :: "dict list \<Rightarrow> pystr list" where
  "frame_columns images =
     fold (\<lambda>d cols. cols @ filter (\<lambda>k. k \<notin> set cols) (remdups (map fst d))) images []"

definition DataFrame :: "dict list \<Rightarrow> dataframe" where
  "DataFrame images =
     \<lparr>columns = frame_columns images,
      rows = map (\<lambda>d. map (map_of d) (frame_columns images)) images\<rparr>"

definition frame_select :: "dataframe \<Rightarrow> pystr list \<Rightarrow> py_error + dataframe" where
  "frame_select df labels =
     (if list_all (\<lambda>c. c \<in> set (columns df)) labels then
        Inr \<lparr>columns = labels,
             rows = map (\<lambda>r. map (\<lambda>c. case map_of (zip (columns df) r) c of
                                          Some cell \<Rightarrow> cell | None \<Rightarrow> None) labels)
                        (rows df)\<rparr>
      else Inl KeyError)"

definition frame_rename :: "dataframe \<Rightarrow> (pystr \<times> pystr) list \<Rightarrow> dataframe" where
  "frame_rename df m =
     df\<lparr>columns := map (\<lambda>c. case map_of m c of Some n \<Rightarrow> n | None \<Rightarrow> c) (columns df)\<rparr>"

text \<open>Lines 96 to 98: the table \<open>images_df\<close>. The script never writes it to a file.\<close>

definition images_df :: "dict list \<Rightarrow> py_error + dataframe" where
  "images_df images =
     (case frame_select (DataFrame images) keep_columns of
        Inl e \<Rightarrow> Inl e
      | Inr df \<Rightarrow> Inr (frame_rename df rename_columns))"

section \<open>The image fetcher\<close>

text \<open>\<open>image.get(k, dflt)\<close> (the loop variable \<open>image\<close> is \<open>img\<close> here) on a record of \<open>images\<close>, which is a dict.\<close>

definition image_get :: "dict \<Rightarrow> pystr \<Rightarrow> json \<Rightarrow> json" where
  "image_get img k dflt = (case map_of img k of Some v \<Rightarrow> v | None \<Rightarrow> dflt)"

definition image_name :: "(json \<Rightarrow> pystr) \<Rightarrow> dict \<Rightarrow> pystr" where
  "image_name rp img =
     str ''images/''
       @ py_str rp (image_get img (str ''collector_number'') (JStr (str ''Unknown'')))
       @ str ''_''
       @ py_str rp (image_get img (str ''photo_identifier'') (JStr (str ''Unknown'')))
       @ str ''.jpg''"

text \<open>
  The loop of lines 112 to 123; \<open>n_images\<close> is \<open>len(images)\<close>. \<open>urlretrieve\<close> raises
  \<open>TypeError\<close> on a URL that is not a string.
\<close>

fun fetch_loop :: "env \<Rightarrow> nat \<Rightarrow> nat \<Rightarrow> dict list \<Rightarrow> event list \<times> py_error option" where
  "fetch_loop env n_images image_counter [] = ([], None)"
| "fetch_loop env n_images image_counter (img # rest) =
     (let name = image_name (py_repr env) img;
          image_url = image_get img (str ''original_size_url'') JNull;
          (evs1, err) =
            (if truthy image_url then
               (case image_url of
                  JStr u \<Rightarrow> ([UrlRetrieve u name], urlretrieve env image_counter u name)
                | _ \<Rightarrow> ([], Some TypeError))
             else ([], None))
      in case err of
           Some e \<Rightarrow> (evs1, Some e)
         | None \<Rightarrow>
             (case fetch_loop env n_images (image_counter + 1) rest of
                (evs, r) \<Rightarrow>
                  (evs1
                     @ (if (image_counter + 1) mod 10 = 0 then
                          [Print (str ''Retrieved '' @ digits (image_counter + 1)
                             @ str '' of '' @ digits n_images @ str '' images'')]
                        else [])
                     @ [Sleep] @ evs, r)))"

section \<open>The script\<close>

definition main :: "env \<Rightarrow> event list \<times> outcome" where
  "main env =
     (case read_csv env of
        Inl e \<Rightarrow>
          (if e = FileNotFoundError then
             ([Print (str ''Could not find observations.csv. Program is now quitting.'')],
              Exited)
           else ([], Raised e))
      | Inr observations \<Rightarrow>
     (case map_of observations (str ''id'') of
        None \<Rightarrow> ([], Raised KeyError)
      | Some obs_ids \<Rightarrow>
     (let ev1 = [Print (str ''Retrieving photo data for '' @ digits (length obs_ids)
                   @ str '' observations'')]
      in case resolver_loop env Map.empty [] 0 obs_ids of
           (ev2, Inl e) \<Rightarrow> (ev1 @ ev2, Raised e)
         | (ev2, Inr (collector_numbers, images, obs_counter)) \<Rightarrow>
     (let ev3 = [Print (str ''Photo retrieval complete; '' @ digits obs_counter
                   @ str '' observations processed, '' @ digits (length images)
                   @ str '' total photo data retrieved'')]
      in case images_df images of
           Inl e \<Rightarrow> (ev1 @ ev2 @ ev3, Raised e)
         | Inr df \<Rightarrow>
     (let ev4 = [Print (str ''Image metadata outputted to image_metadata.csv'')]
      in case (case mkdir env of
                 None \<Rightarrow> Inr [Mkdir (str ''images''), Print (str ''Created images directory.'')]
               | Some e \<Rightarrow>
                   if e = FileExistsError then
                     Inr [Mkdir (str ''images''),
                          Print (str ''Images directory already exists, using existing images directory'')]
                   else Inl e) of
           Inl e \<Rightarrow> (ev1 @ ev2 @ ev3 @ ev4 @ [Mkdir (str ''images'')], Raised e)
         | Inr ev5 \<Rightarrow>
     (let ev6 = [Print (str ''Retrieving '' @ digits (length images) @ str '' images'')]
      in case fetch_loop env (length images) 0 images of
           (ev7, Some e) \<Rightarrow> (ev1 @ ev2 @ ev3 @ ev4 @ ev5 @ ev6 @ ev7, Raised e)
         | (ev7, None) \<Rightarrow>
             (ev1 @ ev2 @ ev3 @ ev4 @ ev5 @ ev6 @ ev7
                @ [Print (str ''Download complete, '' @ digits (length images) @ str '' of ''
                     @ digits (length images) @ str '' images retrieved'')],
              Finished)))))))"

text \<open>The files and directories a run creates or overwrites, read off its events.\<close>

fun paths_written :: "event list \<Rightarrow> pystr list" where
  "paths_written [] = []"
| "paths_written (Mkdir p # evs) = p # paths_written evs"
| "paths_written (UrlRetrieve u f # evs) = f # paths_written evs"
| "paths_written (_ # evs) = paths_written evs"

section \<open>Notions the properties are stated with\<close>

text \<open>The Photo Resolver as a whole: the records of a run that starts with no letter
  assigned, as the script does.\<close>

definition resolver :: "env \<Rightarrow> json list \<Rightarrow> py_error + dict list" where
  "resolver env obs_ids =
     (case snd (resolver_loop env Map.empty [] 0 obs_ids) of
        Inl e \<Rightarrow> Inl e
      | Inr (collector_numbers, images, obs_counter) \<Rightarrow> Inr images)"

text \<open>The records of one collector number in encounter order, their photo
  identifiers, and the \<open>k\<close>-th letter counted from \<open>'A'\<close> (code point 65).\<close>

definition photos_of :: "pystr \<Rightarrow> dict list \<Rightarrow> dict list" where
  "photos_of cn images =
     filter (\<lambda>r. map_of r (str ''collector_number'') = Some (JStr cn)) images"

definition identifiers :: "pystr \<Rightarrow> dict list \<Rightarrow> json option list" where
  "identifiers cn images = map (\<lambda>r. map_of r (str ''photo_identifier'')) (photos_of cn images)"

definition letter :: "nat \<Rightarrow> json" where
  "letter k = JStr [65 + k]"

text \<open>
  What a run is given, photo by photo. \<open>fetched\<close> lists the answers of the endpoint
  to the requests of a run, up to the first request that fails; \<open>photos_in\<close> pairs
  every entry of an observation's \<open>observation_photos\<close> with the observation's
  CollectorNumber; \<open>processed\<close> is the sequence of these pairs over the run, in the
  order in which the resolver visits them.
\<close>

definition observation_url :: "env \<Rightarrow> json \<Rightarrow> pystr" where
  "observation_url env idno =
     str ''https://www.inaturalist.org/observations/'' @ py_str (py_repr env) idno @ str ''.json''"

fun fetched :: "env \<Rightarrow> nat \<Rightarrow> json list \<Rightarrow> json list" where
  "fetched env k [] = []"
| "fetched env k (idno # ids) =
     (case http_json env k (observation_url env idno) of
        Inl e \<Rightarrow> []
      | Inr obs \<Rightarrow> obs # fetched env (k + 1) ids)"

definition photos_in :: "json \<Rightarrow> (pystr \<times> json) list" where
  "photos_in obs =
     (case retrieve_collector_number obs of
        Inl e \<Rightarrow> []
      | Inr cn \<Rightarrow>
          (case py_get obs (str ''observation_photos'') (JList []) of
             Inl e \<Rightarrow> []
           | Inr photos \<Rightarrow>
               (case py_iter photos of Inl e \<Rightarrow> [] | Inr ps \<Rightarrow> map (Pair cn) ps)))"

definition processed :: "env \<Rightarrow> json list \<Rightarrow> (pystr \<times> json) list" where
  "processed env obs_ids = concat (map photos_in (fetched env 0 obs_ids))"

text \<open>The field \<open>k\<close> of the nested \<open>photo\<close> object of an entry of
  \<open>observation_photos\<close> (a repeated key keeps its last value); the photo's raw id is
  \<open>photo_field photo (str ''id'')\<close>.\<close>

fun photo_field :: "json \<Rightarrow> pystr \<Rightarrow> json option" where
  "photo_field (JObj d) k =
     (case map_of d (str ''photo'') of
        Some (JObj kvs) \<Rightarrow> map_of (rev kvs) k
      | _ \<Rightarrow> None)"
| "photo_field _ k = None"

text \<open>
  The identifier rule in the spec's words, over the processed photos: the sentinel
  CollectorNumber takes the photo's raw id; any other takes the next unused letter of that
  CollectorNumber, \<open>'A'\<close> for its first photo, that is the letter numbered by the
  photos of that CollectorNumber met earlier. Each entry is the pair of the record's
  \<open>collector_number\<close> and \<open>photo_identifier\<close>, as \<open>assigned\<close> reads them.
\<close>

definition earlier_of :: "pystr \<Rightarrow> (pystr \<times> json) list \<Rightarrow> nat" where
  "earlier_of cn qs = length (filter (\<lambda>q. fst q = cn) qs)"

fun spec_identifiers ::
  "(pystr \<times> json) list \<Rightarrow> (pystr \<times> json) list \<Rightarrow> (json option \<times> json option) list" where
  "spec_identifiers earlier [] = []"
| "spec_identifiers earlier (q # rest) =
     (Some (JStr (fst q)),
      if fst q = sentinel then photo_field (snd q) (str ''id'')
      else Some (letter (earlier_of (fst q) earlier)))
     # spec_identifiers (earlier @ [q]) rest"

definition assigned :: "dict \<Rightarrow> json option \<times> json option" where
  "assigned r = (map_of r (str ''collector_number''), map_of r (str ''photo_identifier''))"

text \<open>The letter counter agrees with the photos processed so far: a CollectorNumber
  other than the sentinel has no entry before its first photo, and afterwards the letter
  of its latest photo.\<close>

definition letters_follow :: "cns \<Rightarrow> (pystr \<times> json) list \<Rightarrow> bool" where
  "letters_follow collector_numbers earlier =
     (\<forall>cn. cn \<noteq> sentinel \<longrightarrow>
        collector_numbers cn =
          (if earlier_of cn earlier = 0 then None else Some [64 + earlier_of cn earlier]))"

text \<open>The nested field name of an entry of \<open>observation_field_values\<close>, read with the
  defaults of line 37; \<open>None\<close> when the entry or its \<open>observation_field\<close> is not an
  object (the script raises there).\<close>

fun entry_name :: "json \<Rightarrow> json option" where
  "entry_name (JObj d) =
     (case map_of d (str ''observation_field'') of
        None \<Rightarrow> Some (JStr [])
      | Some (JObj ofield) \<Rightarrow>
          Some (case map_of ofield (str ''name'') of Some n \<Rightarrow> n | None \<Rightarrow> JStr [])
      | Some _ \<Rightarrow> None)"
| "entry_name _ = None"


text \<open>The \<open>original_size_url\<close> of a record as the fetcher reads it (absent reads as
  \<open>None\<close>, that is \<open>JNull\<close>): whether it is a string or null, and the URL when it is
  present and not empty.\<close>

definition url_is_text :: "dict \<Rightarrow> bool" where
  "url_is_text r =
     (case image_get r (str ''original_size_url'') JNull of
        JNull \<Rightarrow> True | JStr s \<Rightarrow> True | _ \<Rightarrow> False)"

definition present_url :: "dict \<Rightarrow> pystr option" where
  "present_url r =
     (case image_get r (str ''original_size_url'') JNull of
        JStr s \<Rightarrow> (if s = [] then None else Some s) | _ \<Rightarrow> None)"

text \<open>The downloads of a run: URL and file name of every \<open>urlretrieve\<close> call.\<close>

fun downloads :: "event list \<Rightarrow> (pystr \<times> pystr) list" where
  "downloads [] = []"
| "downloads (UrlRetrieve u f # evs) = (u, f) # downloads evs"
| "downloads (_ # evs) = downloads evs"

section \<open>Example inputs\<close>

text \<open>An entry of \<open>observation_photos\<close>, a "Collector Number" entry of
  \<open>observation_field_values\<close>, and an observation.\<close>

definition example_photo :: "int \<Rightarrow> pystr \<Rightarrow> dict \<Rightarrow> json" where
  "example_photo i url extra =
     JObj [(str ''observation_id'', JInt 100),
           (str ''photo'', JObj ([(str ''id'', JInt i), (str ''large_url'', JStr url)] @ extra))]"

definition cn_field :: "json \<Rightarrow> json" where
  "cn_field v =
     JObj [(str ''observation_field'', JObj [(str ''name'', JStr (str ''Collector Number''))]),
           (str ''value'', v)]"

definition example_obs :: "json list \<Rightarrow> json list \<Rightarrow> json" where
  "example_obs fvs photos =
     JObj [(str ''observation_field_values'', JList fvs),
           (str ''observation_photos'', JList photos)]"

text \<open>The fields of a photo that the metadata table keeps, besides \<open>id\<close>.\<close>

definition example_fields :: dict where
  "example_fields =
     [(str ''created_at'', JStr (str ''2019-05-01'')), (str ''updated_at'', JStr (str ''2019-05-02'')),
      (str ''native_page_url'', JNull), (str ''native_username'', JNull),
      (str ''license'', JInt 4), (str ''subtype'', JNull),
      (str ''native_original_image_url'', JNull), (str ''license_code'', JStr (str ''cc-by'')),
      (str ''attribution'', JStr (str ''(c) someone'')), (str ''license_name'', JStr (str ''CC BY'')),
      (str ''license_url'', JNull), (str ''type'', JStr (str ''LocalPhoto''))]"

text \<open>The record the resolver builds for \<open>example_photo i url extra\<close>.\<close>

definition example_record :: "int \<Rightarrow> pystr \<Rightarrow> dict \<Rightarrow> pystr \<Rightarrow> pystr \<Rightarrow> json \<Rightarrow> dict" where
  "example_record i url extra osu cn pid =
     [(str ''observation_id'', JInt 100), (str ''id'', JInt i), (str ''large_url'', JStr url)]
       @ extra
       @ [(str ''original_size_url'', JStr osu), (str ''collector_number'', JStr cn),
          (str ''photo_identifier'', pid)]"

text \<open>The answers of the endpoint in a run over two observations: the first has no
  "Collector Number" entry and one photo, the second has the collector number "AB 12" and
  two photos.\<close>

definition two_observations :: "nat \<Rightarrow> pystr \<Rightarrow> py_error + json" where
  "two_observations n u =
     Inr (if n = 0 then example_obs [] [example_photo 555 (str ''http://h/5/large.jpg'') []]
          else example_obs [cn_field (JStr (str ''AB 12''))]
                 [example_photo 1 (str ''http://h/5/large.jpg'') [],
                  example_photo 2 (str ''http://h/5/large.jpg'') []])"

text \<open>An environment for the example runs: the input table and the answers of the
  remote endpoint are given, the directory is created and every download succeeds.\<close>

definition example_env ::
  "(py_error + (pystr \<times> json list) list) \<Rightarrow> (nat \<Rightarrow> pystr \<Rightarrow> py_error + json) \<Rightarrow> env" where
  "example_env csv http =
     \<lparr>read_csv = csv, http_json = http, mkdir = None,
      urlretrieve = (\<lambda>n u f. None), py_repr = (\<lambda>v. [])\<rparr>"

section \<open>Basic facts\<close>

lemma str_eq_iff [simp]: "str a = str b \<longleftrightarrow> a = b"
  by (simp add: str_def inj_on_def)

lemma str_Nil [simp]: "str [] = []"
  by (simp add: str_def)

lemma str_eq_Nil [simp]: "str s = [] \<longleftrightarrow> s = []"
  by (simp add: str_def)

lemma Nil_eq_str [simp]: "[] = str s \<longleftrightarrow> s = []"
  by (simp add: str_def)

lemma example_env_sel [simp]:
  "read_csv (example_env c h) = c"
  "http_json (example_env c h) = h"
  "mkdir (example_env c h) = None"
  "urlretrieve (example_env c h) = (\<lambda>n u f. None)"
  "py_repr (example_env c h) = (\<lambda>v. [])"
  by (simp_all add: example_env_def)

lemma Nil_neq_sentinel: "[] \<noteq> sentinel"
  by (simp add: sentinel_def)

lemma image_name_fields:
  "map_of r (str ''collector_number'') = Some cn \<Longrightarrow>
   map_of r (str ''photo_identifier'') = Some pid \<Longrightarrow>
   image_name rp r = str ''images/'' @ py_str rp cn @ str ''_'' @ py_str rp pid @ str ''.jpg''"
  by (simp add: image_name_def image_get_def)

lemma paths_written_append [simp]:
  "paths_written (xs @ ys) = paths_written xs @ paths_written ys"
  by (induction xs rule: paths_written.induct) simp_all

lemma downloads_append [simp]: "downloads (xs @ ys) = downloads xs @ downloads ys"
  by (induction xs rule: downloads.induct) simp_all

lemma resolver_loop_writes_nothing:
  "resolver_loop env c images k ids = (evs, r) \<Longrightarrow> paths_written evs = []"
proof (induction ids arbitrary: c images k evs r)
  case Nil
  then show ?case by simp
next
  case (Cons idno ids)
  show ?case
    using Cons.prems Cons.IH
    by (auto simp: Let_def split: sum.splits prod.splits)
qed

section \<open>The input loader\<close>

text \<open>
  Claim C7. When \<open>observations.csv\<close> is missing, the run consists of one printed
  message and a clean exit: no request is made, no file or directory is written.
\<close>

theorem missing_input_halts:
  assumes "read_csv env = Inl FileNotFoundError"
  shows "main env =
           ([Print (str ''Could not find observations.csv. Program is now quitting.'')], Exited)
         \<and> paths_written (fst (main env)) = []
         \<and> [e \<leftarrow> fst (main env). case e of HttpGet u \<Rightarrow> True | _ \<Rightarrow> False] = []"
  using assms by (simp add: main_def)

theorem missing_input_halts_witness:
  "main (example_env (Inl FileNotFoundError) (\<lambda>n u. Inl (OtherError []))) =
     ([Print (str ''Could not find observations.csv. Program is now quitting.'')], Exited)"
  using missing_input_halts [of "example_env (Inl FileNotFoundError) (\<lambda>n u. Inl (OtherError []))"]
  by (simp add: example_env_def)

section \<open>The metadata table of an empty resolution\<close>

lemma images_df_Nil: "images_df [] = Inl KeyError"
  by (simp add: images_df_def frame_select_def DataFrame_def frame_columns_def keep_columns_def)

text \<open>
  Claim C9. When the resolver ends with no photo record, the column selection of line 97
  raises \<open>KeyError\<close>: the run ends there, and has written nothing.
\<close>

theorem no_photos_projection_fails:
  assumes "read_csv env = Inr observations"
    and "map_of observations (str ''id'') = Some obs_ids"
    and "resolver_loop env Map.empty [] 0 obs_ids = (evs, Inr (c, [], n))"
  shows "images_df [] = Inl KeyError
         \<and> snd (main env) = Raised KeyError
         \<and> paths_written (fst (main env)) = []"
proof -
  have "paths_written evs = []"
    using resolver_loop_writes_nothing [OF assms(3)] .
  then show ?thesis
    using assms by (simp add: main_def images_df_Nil)
qed

theorem no_photos_projection_fails_witness:
  "snd (main (example_env (Inr [(str ''id'', [JInt 100])])
          (\<lambda>n u. Inr (JObj [(str ''observation_photos'', JList [])])))) = Raised KeyError"
proof -
  let ?env = "example_env (Inr [(str ''id'', [JInt 100])])
          (\<lambda>n u. Inr (JObj [(str ''observation_photos'', JList [])]))"
  have h1: "read_csv ?env = Inr [(str ''id'', [JInt 100])]"
    by (simp add: example_env_def)
  have h2: "map_of [(str ''id'', [JInt 100])] (str ''id'') = Some [JInt 100]"
    by simp
  have h3: "resolver_loop ?env Map.empty [] 0 [JInt 100] =
      (fst (resolver_loop ?env Map.empty [] 0 [JInt 100]), Inr (Map.empty, [], 1))"
    by (simp add: example_env_def process_observation_def retrieve_collector_number_def)
  show ?thesis
    using no_photos_projection_fails [OF h1 h2 h3] by simp
qed

section \<open>The original-size URL\<close>

lemma py_replace_Nil: "py_replace old new [] = (if old = [] then new else [])"
  by (simp add: py_replace.simps)

lemma py_replace_char: "py_replace [a] [b] s = map (\<lambda>c. if c = a then b else c) s"
proof (induction s)
  case Nil
  show ?case by (simp add: py_replace_Nil)
next
  case (Cons c cs)
  then show ?case
    by (subst py_replace.simps) simp
qed



lemma process_photo_Inr:
  assumes "process_photo obs col_num cns photo = Inr (cns', r)"
  shows "\<exists>oid sub pd1 osu cn pid.
           py_get photo (str ''observation_id'') JNull = Inr oid
         \<and> py_get photo (str ''photo'') (JObj []) = Inr sub
         \<and> dict_update [(str ''observation_id'', oid)] sub = Inr pd1
         \<and> replace_method
              (case map_of pd1 (str ''large_url'') of Some v \<Rightarrow> v | None \<Rightarrow> JStr [])
              (str ''large'') (str ''original'') = Inr osu
         \<and> retrieve_collector_number obs = Inr cn
         \<and> r = AList.update (str ''photo_identifier'') pid
                 (AList.update (str ''collector_number'') (JStr cn)
                   (AList.update (str ''original_size_url'') (JStr osu) pd1))
         \<and> (if col_num = sentinel then cns' = cns \<and> map_of pd1 (str ''id'') = Some pid
             else \<exists>l. retrieve_image_letter cns cn = Inr (cns', l) \<and> pid = JStr l)"
  using assms unfolding process_photo_def Let_def
  by (auto simp: update_conv' split: sum.splits option.splits if_splits prod.splits)






section \<open>The collector number\<close>

lemma find_collector_number_skip:
  "\<forall>g\<in>set pre. entry_name g \<noteq> None \<and> entry_name g \<noteq> Some (JStr (str ''Collector Number''))
   \<Longrightarrow> find_collector_number (pre @ rest) = find_collector_number rest"
proof (induction pre)
  case Nil
  show ?case by simp
next
  case (Cons g pre)
  then show ?case
    by (cases g) (auto split: option.splits json.splits)
qed

lemma find_collector_number_hit:
  "entry_name (JObj fd) = Some (JStr (str ''Collector Number'')) \<Longrightarrow>
   find_collector_number (JObj fd # post) =
     replace_method (case map_of fd (str ''value'') of Some v \<Rightarrow> v | None \<Rightarrow> JStr sentinel)
       (str '' '') (str ''_'')"
  by (auto split: option.splits json.splits)


text \<open>
  Claim C6. For an observation object: without \<open>observation_field_values\<close>, or when no
  entry of it is named "Collector Number", the collector number is the sentinel; otherwise
  it is the string value of the first entry so named, every space (code point 32) replaced
  by an underscore (code point 95).
\<close>

theorem collector_number_first_match:
  "(map_of d (str ''observation_field_values'') = None \<longrightarrow>
      retrieve_collector_number (JObj d) = Inr sentinel)
   \<and> (\<forall>fs. map_of d (str ''observation_field_values'') = Some (JList fs)
          \<and> (\<forall>g\<in>set fs. entry_name g \<noteq> None
                 \<and> entry_name g \<noteq> Some (JStr (str ''Collector Number''))) \<longrightarrow>
        retrieve_collector_number (JObj d) = Inr sentinel)
   \<and> (\<forall>pre fd post s.
          map_of d (str ''observation_field_values'') = Some (JList (pre @ JObj fd # post))
          \<and> (\<forall>g\<in>set pre. entry_name g \<noteq> None
                 \<and> entry_name g \<noteq> Some (JStr (str ''Collector Number'')))
          \<and> entry_name (JObj fd) = Some (JStr (str ''Collector Number''))
          \<and> map_of fd (str ''value'') = Some (JStr s) \<longrightarrow>
        retrieve_collector_number (JObj d) = Inr (map (\<lambda>c. if c = 32 then 95 else c) s))"
proof (intro conjI allI impI)
  assume "map_of d (str ''observation_field_values'') = None"
  then show "retrieve_collector_number (JObj d) = Inr sentinel"
    by (simp add: retrieve_collector_number_def)
next
  fix fs
  assume "map_of d (str ''observation_field_values'') = Some (JList fs)
          \<and> (\<forall>g\<in>set fs. entry_name g \<noteq> None
                 \<and> entry_name g \<noteq> Some (JStr (str ''Collector Number'')))"
  then show "retrieve_collector_number (JObj d) = Inr sentinel"
    using find_collector_number_skip [of fs "[]"]
    by (simp add: retrieve_collector_number_def)
next
  fix pre fd post s
  assume h: "map_of d (str ''observation_field_values'') = Some (JList (pre @ JObj fd # post))
          \<and> (\<forall>g\<in>set pre. entry_name g \<noteq> None
                 \<and> entry_name g \<noteq> Some (JStr (str ''Collector Number'')))
          \<and> entry_name (JObj fd) = Some (JStr (str ''Collector Number''))
          \<and> map_of fd (str ''value'') = Some (JStr s)"
  have sp: "str '' '' = [32]" "str ''_'' = [95]"
    by (simp_all add: str_def)
  have "find_collector_number (pre @ JObj fd # post) = find_collector_number (JObj fd # post)"
    using h find_collector_number_skip [of pre "JObj fd # post"] by blast
  also have "\<dots> = Inr (py_replace (str '' '') (str ''_'') s)"
    using h find_collector_number_hit [of fd post] by simp
  finally show "retrieve_collector_number (JObj d) = Inr (map (\<lambda>c. if c = 32 then 95 else c) s)"
    using h by (simp add: retrieve_collector_number_def sp py_replace_char)
qed

theorem collector_number_first_match_witness:
  "retrieve_collector_number (JObj []) = Inr sentinel
   \<and> retrieve_collector_number
       (example_obs [JObj [(str ''value'', JStr (str ''x y''))], cn_field (JStr (str ''AB 12'')),
                     cn_field (JStr (str ''C 3''))] []) = Inr (str ''AB_12'')"
proof -
  let ?d = "[(str ''observation_field_values'',
               JList ([JObj [(str ''value'', JStr (str ''x y''))]]
                      @ JObj [(str ''observation_field'', JObj [(str ''name'', JStr (str ''Collector Number''))]),
                              (str ''value'', JStr (str ''AB 12''))]
                      # [cn_field (JStr (str ''C 3''))])),
             (str ''observation_photos'', JList [])]"
  have a: "retrieve_collector_number (JObj []) = Inr sentinel"
    using collector_number_first_match [of "[]"] by simp
  have "retrieve_collector_number (JObj ?d) = Inr (map (\<lambda>c. if c = 32 then 95 else c) (str ''AB 12''))"
    using collector_number_first_match [of ?d, THEN conjunct2, THEN conjunct2, rule_format,
        of "[JObj [(str ''value'', JStr (str ''x y''))]]"
           "[(str ''observation_field'', JObj [(str ''name'', JStr (str ''Collector Number''))]),
             (str ''value'', JStr (str ''AB 12''))]"
           "[cn_field (JStr (str ''C 3''))]" "str ''AB 12''"]
    by simp
  moreover have "map (\<lambda>c. if c = 32 then 95 else c) (str ''AB 12'') = str ''AB_12''"
    by (simp add: str_def)
  ultimately show ?thesis
    using a by (simp add: example_obs_def cn_field_def)
qed


section \<open>Invariants of the resolver loops\<close>

text \<open>A property of the letter counter and the records so far that every photo
  preserves holds after the photo loop, after an observation, and after a run.\<close>

lemma photo_loop_invariant:
  assumes step: "\<And>cns images photo cns' r.
        P cns images \<Longrightarrow> process_photo obs col_num cns photo = Inr (cns', r)
        \<Longrightarrow> P cns' (images @ [r])"
    and "P cns images"
    and "photo_loop obs col_num cns images photos = Inr (cns', images')"
  shows "P cns' images'"
  using assms(2,3)
proof (induction photos arbitrary: cns images)
  case Nil
  then show ?case by simp
next
  case (Cons photo photos)
  from Cons.prems(2) obtain c1 r where
    p: "process_photo obs col_num cns photo = Inr (c1, r)"
    and l: "photo_loop obs col_num c1 (images @ [r]) photos = Inr (cns', images')"
    by (auto split: sum.splits)
  show ?case
    using Cons.IH [OF step [OF Cons.prems(1) p] l] .
qed

lemma process_observation_invariant:
  assumes step: "\<And>col_num cns images photo cns' r.
        P cns images \<Longrightarrow> retrieve_collector_number obs = Inr col_num
        \<Longrightarrow> process_photo obs col_num cns photo = Inr (cns', r)
        \<Longrightarrow> P cns' (images @ [r])"
    and "P cns images"
    and "process_observation obs cns images = Inr (cns', images')"
  shows "P cns' images'"
proof -
  from assms(3) obtain col_num ps where
    c: "retrieve_collector_number obs = Inr col_num"
    and l: "photo_loop obs col_num cns images ps = Inr (cns', images')"
    unfolding process_observation_def by (auto split: sum.splits)
  show ?thesis
    by (rule photo_loop_invariant [where P = P, OF _ assms(2) l]) (rule step [OF _ c])
qed

lemma resolver_loop_invariant:
  assumes step: "\<And>obs col_num cns images photo cns' r.
        P cns images \<Longrightarrow> retrieve_collector_number obs = Inr col_num
        \<Longrightarrow> process_photo obs col_num cns photo = Inr (cns', r)
        \<Longrightarrow> P cns' (images @ [r])"
    and "P cns images"
    and "snd (resolver_loop env cns images k ids) = Inr (cns', images', k')"
  shows "P cns' images'"
  using assms(2,3)
proof (induction ids arbitrary: cns images k)
  case Nil
  then show ?case by simp
next
  case (Cons idno ids)
  from Cons.prems(2) obtain obs c1 i1 where
    o: "process_observation obs cns images = Inr (c1, i1)"
    and l: "snd (resolver_loop env c1 i1 (k + 1) ids) = Inr (cns', images', k')"
    by (auto simp: Let_def split: sum.splits prod.splits)
  have "P c1 i1"
    by (rule process_observation_invariant [where P = P, OF _ Cons.prems(1) o]) (rule step)
  then show ?case
    using Cons.IH l by blast
qed

lemma resolver_invariant:
  assumes step: "\<And>obs col_num cns images photo cns' r.
        P cns images \<Longrightarrow> retrieve_collector_number obs = Inr col_num
        \<Longrightarrow> process_photo obs col_num cns photo = Inr (cns', r)
        \<Longrightarrow> P cns' (images @ [r])"
    and "P Map.empty []"
    and "resolver env ids = Inr images"
  shows "\<exists>cns. P cns images"
proof -
  from assms(3) obtain cns k where
    run: "snd (resolver_loop env Map.empty [] 0 ids) = Inr (cns, images, k)"
    unfolding resolver_def by (auto split: sum.splits)
  have "P cns images"
    by (rule resolver_loop_invariant [where P = P, OF _ assms(2) run]) (rule step)
  then show ?thesis by blast
qed


section \<open>The photo identifiers\<close>

lemma str_A: "str ''A'' = [65]"
  by (simp add: str_def)

lemma str_B: "str ''B'' = [66]"
  by (simp add: str_def)

lemma retrieve_image_letter_Inr:
  assumes "retrieve_image_letter cns cn = Inr (cns', l)"
  shows "cns' = cns(cn \<mapsto> l)"
    and "cns cn = None \<Longrightarrow> l = [65]"
    and "cns cn = Some [n] \<Longrightarrow> l = [Suc n]"
  using assms
  by (auto simp: retrieve_image_letter_def py_ord_def py_chr_def str_A
           split: option.splits if_splits sum.splits list.splits)

lemma process_photo_fields:
  assumes "process_photo obs col_num cns photo = Inr (cns', r)"
    and "retrieve_collector_number obs = Inr col_num"
  shows "map_of r (str ''collector_number'') = Some (JStr col_num)"
    and "col_num = sentinel \<Longrightarrow> cns' = cns"
    and "col_num = sentinel \<Longrightarrow>
           map_of r (str ''id'') \<noteq> None
           \<and> map_of r (str ''photo_identifier'') = map_of r (str ''id'')"
    and "col_num \<noteq> sentinel \<Longrightarrow>
           \<exists>l. retrieve_image_letter cns col_num = Inr (cns', l)
               \<and> map_of r (str ''photo_identifier'') = Some (JStr l)"
    and "\<exists>s. map_of r (str ''original_size_url'') = Some (JStr s)"
  using process_photo_Inr [OF assms(1)] assms(2)
  by (auto simp: update_conv')

lemma photos_of_snoc:
  "photos_of cn (images @ [r]) =
     photos_of cn images @ (if map_of r (str ''collector_number'') = Some (JStr cn) then [r] else [])"
  by (simp add: photos_of_def)

lemma identifiers_snoc:
  "identifiers cn (images @ [r]) =
     identifiers cn images
       @ (if map_of r (str ''collector_number'') = Some (JStr cn)
          then [map_of r (str ''photo_identifier'')] else [])"
  by (simp add: identifiers_def photos_of_def)

lemma length_identifiers [simp]: "length (identifiers cn images) = length (photos_of cn images)"
  by (simp add: identifiers_def)

lemma letters_step:
  assumes "cn \<noteq> sentinel"
    and inv: "cns cn = (if photos_of cn images = [] then None
                       else Some [64 + length (photos_of cn images)])
              \<and> identifiers cn images = map (\<lambda>k. Some (letter k)) [0..<length (photos_of cn images)]"
    and c: "retrieve_collector_number obs = Inr col_num"
    and p: "process_photo obs col_num cns photo = Inr (cns', r)"
  shows "cns' cn = (if photos_of cn (images @ [r]) = [] then None
                       else Some [64 + length (photos_of cn (images @ [r]))])
         \<and> identifiers cn (images @ [r]) =
             map (\<lambda>k. Some (letter k)) [0..<length (photos_of cn (images @ [r]))]"
proof (cases "col_num = cn")
  case True
  with assms(1) have ns: "col_num \<noteq> sentinel" by simp
  from process_photo_fields(4) [OF p c ns] obtain l where
    l: "retrieve_image_letter cns cn = Inr (cns', l)"
    and pid: "map_of r (str ''photo_identifier'') = Some (JStr l)"
    using True by auto
  have rc: "map_of r (str ''collector_number'') = Some (JStr cn)"
    using process_photo_fields(1) [OF p c] True by simp
  have "l = [65 + length (photos_of cn images)]"
  proof (cases "photos_of cn images = []")
    case True
    then show ?thesis
      using inv retrieve_image_letter_Inr(2) [OF l] by simp
  next
    case False
    then show ?thesis
      using inv retrieve_image_letter_Inr(3) [OF l, of "64 + length (photos_of cn images)"] by simp
  qed
  then show ?thesis
    using inv retrieve_image_letter_Inr(1) [OF l] rc pid
    by (simp add: photos_of_snoc identifiers_snoc letter_def)
next
  case False
  have rc: "map_of r (str ''collector_number'') \<noteq> Some (JStr cn)"
    using process_photo_fields(1) [OF p c] False by simp
  have "cns' cn = cns cn"
  proof (cases "col_num = sentinel")
    case True
    then show ?thesis using process_photo_fields(2) [OF p c] by simp
  next
    case ns: False
    from process_photo_fields(4) [OF p c ns] obtain l where
      "retrieve_image_letter cns col_num = Inr (cns', l)" by auto
    from retrieve_image_letter_Inr(1) [OF this] show ?thesis
      using False by simp
  qed
  then show ?thesis
    using inv rc by (simp add: photos_of_snoc identifiers_snoc)
qed

lemma resolver_letters:
  assumes "resolver env obs_ids = Inr images" and "cn \<noteq> sentinel"
  shows "identifiers cn images = map (\<lambda>k. Some (letter k)) [0..<length (photos_of cn images)]"
proof -
  let ?P = "\<lambda>cns images. cns cn = (if photos_of cn images = [] then None
                       else Some [64 + length (photos_of cn images)])
              \<and> identifiers cn images = map (\<lambda>k. Some (letter k)) [0..<length (photos_of cn images)]"
  have "\<exists>cns. ?P cns images"
  proof (rule resolver_invariant [where P = ?P, OF _ _ assms(1)])
    show "?P Map.empty []"
      by (simp add: photos_of_def identifiers_def)
  next
    fix obs col_num cns images photo cns' r
    assume "?P cns images" "retrieve_collector_number obs = Inr col_num"
      "process_photo obs col_num cns photo = Inr (cns', r)"
    then show "?P cns' (images @ [r])"
      using letters_step [OF assms(2)] by blast
  qed
  then show ?thesis by blast
qed

lemma resolver_records:
  assumes "resolver env obs_ids = Inr images"
  shows "\<forall>r\<in>set images.
           (\<exists>cn. map_of r (str ''collector_number'') = Some (JStr cn))
         \<and> (\<exists>s. map_of r (str ''original_size_url'') = Some (JStr s))
         \<and> (map_of r (str ''collector_number'') = Some (JStr sentinel) \<longrightarrow>
              map_of r (str ''id'') \<noteq> None
              \<and> map_of r (str ''photo_identifier'') = map_of r (str ''id''))"
proof -
  let ?Q = "\<lambda>r. (\<exists>cn. map_of r (str ''collector_number'') = Some (JStr cn))
         \<and> (\<exists>s. map_of r (str ''original_size_url'') = Some (JStr s))
         \<and> (map_of r (str ''collector_number'') = Some (JStr sentinel) \<longrightarrow>
              map_of r (str ''id'') \<noteq> None
              \<and> map_of r (str ''photo_identifier'') = map_of r (str ''id''))"
  let ?P = "\<lambda>(cns :: cns) images. \<forall>r\<in>set images. ?Q r"
  have "\<exists>cns. ?P cns images"
  proof (rule resolver_invariant [where P = ?P, OF _ _ assms(1)])
    show "?P Map.empty []" by simp
  next
    fix obs col_num cns images photo cns' r
    assume a: "?P cns images" "retrieve_collector_number obs = Inr col_num"
      "process_photo obs col_num cns photo = Inr (cns', r)"
    have "?Q r"
      using process_photo_fields(1,3,5) [OF a(3) a(2)] by auto
    then show "?P cns' (images @ [r])"
      using a(1) by simp
  qed
  then show ?thesis by blast
qed


lemma replace_example_url:
  "py_replace (str ''large'') (str ''original'') (str ''http://h/5/large.jpg'')
     = str ''http://h/5/original.jpg''"
  by (simp add: str_def py_replace.simps)

lemma replace_example_cn:
  "py_replace (str '' '') (str ''_'') (str ''AB 12'') = str ''AB_12''"
  by (simp add: str_def py_replace.simps)


lemma example_run_letters:
  "resolver (example_env csv (\<lambda>n u. Inr (example_obs [cn_field (JStr (str ''AB 12''))]
       [example_photo 1 (str ''http://h/5/large.jpg'') [],
        example_photo 2 (str ''http://h/5/large.jpg'') []])))
     [JInt 200] =
   Inr [example_record 1 (str ''http://h/5/large.jpg'') [] (str ''http://h/5/original.jpg'')
          (str ''AB_12'') (letter 0),
        example_record 2 (str ''http://h/5/large.jpg'') [] (str ''http://h/5/original.jpg'')
          (str ''AB_12'') (letter 1)]"
  by (simp add: resolver_def example_env_def example_obs_def example_photo_def cn_field_def
        example_record_def process_observation_def retrieve_collector_number_def
        process_photo_def replace_example_url replace_example_cn sentinel_def
        retrieve_image_letter_def py_ord_def py_chr_def letter_def str_A)


text \<open>
  Claim C5. In a run of the resolver, the identifiers of the photos of a collector number
  other than the sentinel are, in encounter order, the letters \<open>'A'\<close>, \<open>'B'\<close>,
  \<open>'C'\<close>, ... (code points 65, 66, 67, ...): one-character strings whose code points
  strictly increase.
\<close>

theorem letters_increase:
  assumes "resolver env obs_ids = Inr images" and "cn \<noteq> sentinel"
  shows "identifiers cn images = map (\<lambda>k. Some (letter k)) [0..<length (photos_of cn images)]
       \<and> (\<forall>i j. i < j \<and> j < length (photos_of cn images) \<longrightarrow>
            (\<exists>a b. identifiers cn images ! i = Some (JStr [a])
                 \<and> identifiers cn images ! j = Some (JStr [b]) \<and> a < b))"
  using resolver_letters [OF assms] by (simp add: letter_def)

theorem letters_increase_witness:
  "identifiers (str ''AB_12'')
     (projr (resolver (example_env (Inr []) (\<lambda>n u. Inr (example_obs [cn_field (JStr (str ''AB 12''))]
        [example_photo 1 (str ''http://h/5/large.jpg'') [],
         example_photo 2 (str ''http://h/5/large.jpg'') []])))
       [JInt 200]))
   = [Some (JStr (str ''A'')), Some (JStr (str ''B''))]"
proof -
  have ns: "str ''AB_12'' \<noteq> sentinel"
    by (simp add: sentinel_def)
  have n: "length (photos_of (str ''AB_12'')
       [example_record 1 (str ''http://h/5/large.jpg'') [] (str ''http://h/5/original.jpg'')
          (str ''AB_12'') (letter 0),
        example_record 2 (str ''http://h/5/large.jpg'') [] (str ''http://h/5/original.jpg'')
          (str ''AB_12'') (letter 1)]) = Suc (Suc 0)"
    by (simp add: photos_of_def example_record_def)
  note letters_increase [OF example_run_letters [where csv = "Inr []"] ns, THEN conjunct1]
  then show ?thesis
    unfolding n by (simp add: example_run_letters letter_def str_A str_B)
qed


section \<open>The identifiers against the processed photos\<close>

text \<open>The record's fields come from the nested photo object of the entry.\<close>

lemma map_of_fold_update:
  "map_of (fold (\<lambda>kv. AList.update (fst kv) (snd kv)) kvs d) k =
     (case map_of (rev kvs) k of Some v \<Rightarrow> Some v | None \<Rightarrow> map_of d k)"
proof (induction kvs arbitrary: d)
  case Nil
  show ?case by simp
next
  case (Cons kv kvs)
  show ?case
    by (simp add: Cons.IH update_conv' map_add_def split: option.splits)
qed

lemma merged_photo_field:
  assumes "py_get photo (str ''photo'') (JObj []) = Inr sub"
    and "dict_update [(str ''observation_id'', oid)] sub = Inr pd1"
    and "k \<noteq> str ''observation_id''"
  shows "map_of pd1 k = photo_field photo k"
proof -
  from assms(1) obtain d where photo: "photo = JObj d"
    by (cases photo) auto
  show ?thesis
  proof (cases sub)
    case (JObj kvs)
    then show ?thesis
      using assms photo by (auto simp: map_of_fold_update split: option.splits)
  next
    case (JList xs)
    then show ?thesis
      using assms photo by (cases xs) (auto split: option.splits)
  next
    case (JStr s)
    then show ?thesis
      using assms photo by (auto split: option.splits if_splits)
  qed (use assms in auto)
qed

text \<open>One photo: the record carries the CollectorNumber of its observation and the
  identifier the rule gives it, and the letter counter follows.\<close>

lemma earlier_of_snoc:
  "earlier_of cn (qs @ [q]) = earlier_of cn qs + (if fst q = cn then 1 else 0)"
  by (simp add: earlier_of_def)

lemma photo_step:
  assumes p: "process_photo obs col_num cns photo = Inr (cns', r)"
    and c: "retrieve_collector_number obs = Inr col_num"
    and inv: "letters_follow cns earlier"
  shows "assigned r =
           (Some (JStr col_num),
            if col_num = sentinel then photo_field photo (str ''id'')
            else Some (letter (earlier_of col_num earlier)))
       \<and> (col_num = sentinel \<longrightarrow> photo_field photo (str ''id'') \<noteq> None)
       \<and> letters_follow cns' (earlier @ [(col_num, photo)])"
proof -
  from process_photo_Inr [OF p] c obtain oid sub pd1 osu pid where
    sub: "py_get photo (str ''photo'') (JObj []) = Inr sub"
    and pd1: "dict_update [(str ''observation_id'', oid)] sub = Inr pd1"
    and r: "r = AList.update (str ''photo_identifier'') pid
                 (AList.update (str ''collector_number'') (JStr col_num)
                   (AList.update (str ''original_size_url'') (JStr osu) pd1))"
    and br: "if col_num = sentinel then cns' = cns \<and> map_of pd1 (str ''id'') = Some pid
             else \<exists>l. retrieve_image_letter cns col_num = Inr (cns', l) \<and> pid = JStr l"
    by auto
  have idf: "map_of pd1 (str ''id'') = photo_field photo (str ''id'')"
    by (rule merged_photo_field [OF sub pd1]) simp
  have a: "assigned r = (Some (JStr col_num), Some pid)"
    by (simp add: assigned_def r update_conv')
  show ?thesis
  proof (cases "col_num = sentinel")
    case True
    with br idf have "cns' = cns" "photo_field photo (str ''id'') = Some pid" by auto
    then show ?thesis
      using a True inv by (auto simp: letters_follow_def earlier_of_snoc)
  next
    case False
    with br obtain l where l: "retrieve_image_letter cns col_num = Inr (cns', l)"
      and pid: "pid = JStr l" by auto
    have "l = [65 + earlier_of col_num earlier]"
    proof (cases "earlier_of col_num earlier = 0")
      case True
      then show ?thesis
        using inv False retrieve_image_letter_Inr(2) [OF l] by (simp add: letters_follow_def)
    next
      case nz: False
      then show ?thesis
        using inv False
          retrieve_image_letter_Inr(3) [OF l, of "64 + earlier_of col_num earlier"]
        by (simp add: letters_follow_def)
    qed
    then show ?thesis
      using a False pid inv retrieve_image_letter_Inr(1) [OF l]
      by (auto simp: letters_follow_def earlier_of_snoc letter_def)
  qed
qed

lemma spec_identifiers_append:
  "spec_identifiers e (xs @ ys) = spec_identifiers e xs @ spec_identifiers (e @ xs) ys"
  by (induction xs arbitrary: e) simp_all

lemma photo_loop_assigns:
  assumes "photo_loop obs col_num cns images ps = Inr (cns', images')"
    and "retrieve_collector_number obs = Inr col_num"
    and "letters_follow cns earlier"
  shows "\<exists>new. images' = images @ new
       \<and> map assigned new = spec_identifiers earlier (map (Pair col_num) ps)
       \<and> (col_num = sentinel \<longrightarrow> (\<forall>photo\<in>set ps. photo_field photo (str ''id'') \<noteq> None))
       \<and> letters_follow cns' (earlier @ map (Pair col_num) ps)"
  using assms(1,3)
proof (induction ps arbitrary: cns images earlier)
  case Nil
  then show ?case by simp
next
  case (Cons photo ps)
  from Cons.prems(1) obtain c1 r where
    p: "process_photo obs col_num cns photo = Inr (c1, r)"
    and l: "photo_loop obs col_num c1 (images @ [r]) ps = Inr (cns', images')"
    by (auto split: sum.splits)
  note st = photo_step [OF p assms(2) Cons.prems(2)]
  from st have inv: "letters_follow c1 (earlier @ [(col_num, photo)])" by simp
  from Cons.IH [OF l inv] obtain new where
    new: "images' = (images @ [r]) @ new"
      "map assigned new = spec_identifiers (earlier @ [(col_num, photo)]) (map (Pair col_num) ps)"
      "col_num = sentinel \<longrightarrow> (\<forall>photo\<in>set ps. photo_field photo (str ''id'') \<noteq> None)"
      "letters_follow cns' ((earlier @ [(col_num, photo)]) @ map (Pair col_num) ps)"
    by blast
  show ?case
  proof (intro exI [of _ "r # new"] conjI)
    show "images' = images @ r # new" using new(1) by simp
    show "map assigned (r # new) = spec_identifiers earlier (map (Pair col_num) (photo # ps))"
      using st new(2) by simp
    show "col_num = sentinel \<longrightarrow>
        (\<forall>photo\<in>set (photo # ps). photo_field photo (str ''id'') \<noteq> None)"
      using st new(3) by simp
    show "letters_follow cns' (earlier @ map (Pair col_num) (photo # ps))"
      using new(4) by simp
  qed
qed

lemma process_observation_assigns:
  assumes "process_observation obs cns images = Inr (cns', images')"
    and "letters_follow cns earlier"
  shows "\<exists>new. images' = images @ new
       \<and> map assigned new = spec_identifiers earlier (photos_in obs)
       \<and> (\<forall>q\<in>set (photos_in obs). fst q = sentinel \<longrightarrow> photo_field (snd q) (str ''id'') \<noteq> None)
       \<and> letters_follow cns' (earlier @ photos_in obs)"
proof -
  from assms(1) obtain photos col_num ps where
    g: "py_get obs (str ''observation_photos'') (JList []) = Inr photos"
    and c: "retrieve_collector_number obs = Inr col_num"
    and i: "py_iter photos = Inr ps"
    and l: "photo_loop obs col_num cns images ps = Inr (cns', images')"
    unfolding process_observation_def by (auto split: sum.splits)
  have "photos_in obs = map (Pair col_num) ps"
    by (simp add: photos_in_def g c i)
  then show ?thesis
    using photo_loop_assigns [OF l c assms(2)] by auto
qed

lemma resolver_loop_assigns:
  assumes "snd (resolver_loop env cns images k ids) = Inr (cns', images', k')"
    and "letters_follow cns earlier"
  shows "\<exists>new. images' = images @ new
       \<and> map assigned new = spec_identifiers earlier (concat (map photos_in (fetched env k ids)))
       \<and> (\<forall>q\<in>set (concat (map photos_in (fetched env k ids))).
             fst q = sentinel \<longrightarrow> photo_field (snd q) (str ''id'') \<noteq> None)"
  using assms
proof (induction ids arbitrary: cns images k earlier)
  case Nil
  then show ?case by simp
next
  case (Cons idno ids)
  from Cons.prems(1) obtain obs c1 i1 where
    h: "http_json env k (observation_url env idno) = Inr obs"
    and o: "process_observation obs cns images = Inr (c1, i1)"
    and l: "snd (resolver_loop env c1 i1 (k + 1) ids) = Inr (cns', images', k')"
    by (auto simp: Let_def observation_url_def split: sum.splits prod.splits)
  from process_observation_assigns [OF o Cons.prems(2)] obtain new1 where
    n1: "i1 = images @ new1"
      "map assigned new1 = spec_identifiers earlier (photos_in obs)"
      "\<forall>q\<in>set (photos_in obs). fst q = sentinel \<longrightarrow> photo_field (snd q) (str ''id'') \<noteq> None"
      "letters_follow c1 (earlier @ photos_in obs)"
    by blast
  from Cons.IH [OF l n1(4)] obtain new2 where
    n2: "images' = i1 @ new2"
      "map assigned new2 =
         spec_identifiers (earlier @ photos_in obs) (concat (map photos_in (fetched env (k + 1) ids)))"
      "\<forall>q\<in>set (concat (map photos_in (fetched env (k + 1) ids))).
             fst q = sentinel \<longrightarrow> photo_field (snd q) (str ''id'') \<noteq> None"
    by blast
  have f: "fetched env k (idno # ids) = obs # fetched env (k + 1) ids"
    by (simp add: h)
  show ?case
  proof (intro exI [of _ "new1 @ new2"] conjI)
    show "images' = images @ new1 @ new2" using n1(1) n2(1) by simp
    show "map assigned (new1 @ new2) =
        spec_identifiers earlier (concat (map photos_in (fetched env k (idno # ids))))"
      using n1(2) n2(2) unfolding f by (simp add: spec_identifiers_append)
    show "\<forall>q\<in>set (concat (map photos_in (fetched env k (idno # ids)))).
             fst q = sentinel \<longrightarrow> photo_field (snd q) (str ''id'') \<noteq> None"
      using n1(3) n2(3) unfolding f by auto
  qed
qed

lemma resolver_assigns:
  assumes "resolver env obs_ids = Inr images"
  shows "map assigned images = spec_identifiers [] (processed env obs_ids)"
    and "\<forall>q\<in>set (processed env obs_ids).
           fst q = sentinel \<longrightarrow> photo_field (snd q) (str ''id'') \<noteq> None"
proof -
  from assms obtain cns k where
    run: "snd (resolver_loop env Map.empty [] 0 obs_ids) = Inr (cns, images, k)"
    unfolding resolver_def by (auto split: sum.splits)
  have "letters_follow Map.empty []"
    by (simp add: letters_follow_def earlier_of_def)
  from resolver_loop_assigns [OF run this]
  show "map assigned images = spec_identifiers [] (processed env obs_ids)"
    and "\<forall>q\<in>set (processed env obs_ids).
           fst q = sentinel \<longrightarrow> photo_field (snd q) (str ''id'') \<noteq> None"
    by (auto simp: processed_def)
qed


lemma length_spec_identifiers [simp]: "length (spec_identifiers e xs) = length xs"
  by (induction xs arbitrary: e) simp_all

lemma spec_identifiers_nth:
  "i < length xs \<Longrightarrow>
   spec_identifiers e xs ! i =
     (Some (JStr (fst (xs ! i))),
      if fst (xs ! i) = sentinel then photo_field (snd (xs ! i)) (str ''id'')
      else Some (letter (earlier_of (fst (xs ! i)) (e @ take i xs))))"
proof (induction xs arbitrary: e i)
  case Nil
  then show ?case by simp
next
  case (Cons q xs)
  show ?case
  proof (cases i)
    case 0
    then show ?thesis by simp
  next
    case (Suc n)
    then show ?thesis
      using Cons.prems Cons.IH [of n "e @ [q]"] by simp
  qed
qed





lemma example_run_mixed:
  "resolver (example_env (Inr []) two_observations) [JInt 100, JInt 200] =
   Inr [example_record 555 (str ''http://h/5/large.jpg'') [] (str ''http://h/5/original.jpg'')
          sentinel (JInt 555),
        example_record 1 (str ''http://h/5/large.jpg'') [] (str ''http://h/5/original.jpg'')
          (str ''AB_12'') (letter 0),
        example_record 2 (str ''http://h/5/large.jpg'') [] (str ''http://h/5/original.jpg'')
          (str ''AB_12'') (letter 1)]"
  by (simp add: resolver_def two_observations_def example_obs_def example_photo_def cn_field_def
        example_record_def process_observation_def retrieve_collector_number_def
        process_photo_def replace_example_url replace_example_cn sentinel_def
        retrieve_image_letter_def py_ord_def py_chr_def letter_def str_A)

lemma example_processed_mixed:
  "processed (example_env (Inr []) two_observations) [JInt 100, JInt 200] =
     [(sentinel, example_photo 555 (str ''http://h/5/large.jpg'') []),
      (str ''AB_12'', example_photo 1 (str ''http://h/5/large.jpg'') []),
      (str ''AB_12'', example_photo 2 (str ''http://h/5/large.jpg'') [])]"
  by (simp add: processed_def two_observations_def photos_in_def example_obs_def cn_field_def
        retrieve_collector_number_def replace_example_cn)






text \<open>
  Claim C4. In a run of the resolver, the records are, photo by photo in the order of
  processing, those of the identifier rule: each carries the CollectorNumber of its
  observation; when that is the sentinel its identifier is the photo's own raw id (which
  the photo has), otherwise it is the next unused letter of that CollectorNumber,
  \<open>'A'\<close> for its first photo.
\<close>

theorem identifier_rule:
  assumes "resolver env obs_ids = Inr images"
  shows "map assigned images = spec_identifiers [] (processed env obs_ids)
       \<and> (\<forall>q\<in>set (processed env obs_ids).
             fst q = sentinel \<longrightarrow> photo_field (snd q) (str ''id'') \<noteq> None)"
  using resolver_assigns [OF assms] by simp

theorem identifier_rule_witness:
  "map assigned (projr (resolver (example_env (Inr []) two_observations) [JInt 100, JInt 200]))
   = [(Some (JStr sentinel), Some (JInt 555)),
      (Some (JStr (str ''AB_12'')), Some (JStr (str ''A''))),
      (Some (JStr (str ''AB_12'')), Some (JStr (str ''B'')))]"
proof -
  have ns: "str ''AB_12'' \<noteq> sentinel"
    by (simp add: sentinel_def)
  have "spec_identifiers []
      [(sentinel, example_photo 555 (str ''http://h/5/large.jpg'') []),
       (str ''AB_12'', example_photo 1 (str ''http://h/5/large.jpg'') []),
       (str ''AB_12'', example_photo 2 (str ''http://h/5/large.jpg'') [])]
    = [(Some (JStr sentinel), Some (JInt 555)),
       (Some (JStr (str ''AB_12'')), Some (JStr (str ''A''))),
       (Some (JStr (str ''AB_12'')), Some (JStr (str ''B'')))]"
    using ns by (simp add: example_photo_def earlier_of_def letter_def str_A str_B)
  then show ?thesis
    using identifier_rule [OF example_run_mixed, THEN conjunct1]
    by (simp add: example_run_mixed example_processed_mixed)
qed

section \<open>The sentinel fallback and an empty collector number\<close>

lemma replace_sentinel_words:
  "py_replace (str '' '') (str ''_'') (str ''No Collector Number'') = sentinel"
  "py_replace (str '' '') (str ''_'') sentinel = sentinel"
  by (simp_all add: str_def sentinel_def py_replace.simps)

lemma first_match:
  assumes "map_of d (str ''observation_field_values'') = Some (JList (pre @ JObj fd # post))"
    and "\<forall>g\<in>set pre. entry_name g \<noteq> None
              \<and> entry_name g \<noteq> Some (JStr (str ''Collector Number''))"
    and "entry_name (JObj fd) = Some (JStr (str ''Collector Number''))"
  shows "retrieve_collector_number (JObj d) =
           replace_method (case map_of fd (str ''value'') of Some v \<Rightarrow> v | None \<Rightarrow> JStr sentinel)
             (str '' '') (str ''_'')"
proof -
  have "find_collector_number (pre @ JObj fd # post) = find_collector_number (JObj fd # post)"
    using assms(2) by (rule find_collector_number_skip)
  then show ?thesis
    using assms(1) find_collector_number_hit [OF assms(3), of post]
    by (simp add: retrieve_collector_number_def)
qed

text \<open>
  Claim C10, as amended. The photo-id fallback is taken exactly when the observation's
  CollectorNumber is the sentinel text; besides an absent field this is so when the first
  "Collector Number" entry has no value or its value reads "No Collector Number". It is not
  taken for an empty value: such an observation has the empty string as CollectorNumber,
  which is not the sentinel, its photos get the letters of that group, and their files are
  \<open>images/_A.jpg\<close>, \<open>images/_B.jpg\<close>, ... .
\<close>

theorem sentinel_fallback_rule:
  "(\<forall>pre fd post.
       map_of d (str ''observation_field_values'') = Some (JList (pre @ JObj fd # post))
       \<and> (\<forall>g\<in>set pre. entry_name g \<noteq> None
              \<and> entry_name g \<noteq> Some (JStr (str ''Collector Number'')))
       \<and> entry_name (JObj fd) = Some (JStr (str ''Collector Number'')) \<longrightarrow>
     (map_of fd (str ''value'') = None \<longrightarrow> retrieve_collector_number (JObj d) = Inr sentinel)
     \<and> (map_of fd (str ''value'') = Some (JStr (str ''No Collector Number'')) \<longrightarrow>
          retrieve_collector_number (JObj d) = Inr sentinel)
     \<and> (map_of fd (str ''value'') = Some (JStr []) \<longrightarrow>
          retrieve_collector_number (JObj d) = Inr [] \<and> [] \<noteq> sentinel))
   \<and> (\<forall>env obs_ids images.
       resolver env obs_ids = Inr images \<longrightarrow>
       length images = length (processed env obs_ids)
       \<and> (\<forall>i cn photo.
             i < length images \<and> processed env obs_ids ! i = (cn, photo) \<longrightarrow>
             map_of (images ! i) (str ''collector_number'') = Some (JStr cn)
             \<and> (cn = sentinel \<longrightarrow>
                  photo_field photo (str ''id'') \<noteq> None
                  \<and> map_of (images ! i) (str ''photo_identifier'') = photo_field photo (str ''id''))
             \<and> (cn \<noteq> sentinel \<longrightarrow>
                  map_of (images ! i) (str ''photo_identifier'')
                    = Some (letter (earlier_of cn (take i (processed env obs_ids)))))
             \<and> (cn = [] \<longrightarrow>
                  image_name rp (images ! i)
                    = str ''images/_'' @ [65 + earlier_of [] (take i (processed env obs_ids))]
                        @ str ''.jpg'')))"
proof (intro conjI allI impI)
  fix pre fd post
  assume h: "map_of d (str ''observation_field_values'') = Some (JList (pre @ JObj fd # post))
       \<and> (\<forall>g\<in>set pre. entry_name g \<noteq> None
              \<and> entry_name g \<noteq> Some (JStr (str ''Collector Number'')))
       \<and> entry_name (JObj fd) = Some (JStr (str ''Collector Number''))"
  then have fm: "retrieve_collector_number (JObj d) =
           replace_method (case map_of fd (str ''value'') of Some v \<Rightarrow> v | None \<Rightarrow> JStr sentinel)
             (str '' '') (str ''_'')"
    using first_match [of d pre fd post] by blast
  {
    assume "map_of fd (str ''value'') = None"
    then show "retrieve_collector_number (JObj d) = Inr sentinel"
      using fm by (simp add: replace_sentinel_words)
  }
  {
    assume "map_of fd (str ''value'') = Some (JStr (str ''No Collector Number''))"
    then show "retrieve_collector_number (JObj d) = Inr sentinel"
      using fm by (simp add: replace_sentinel_words)
  }
  {
    assume "map_of fd (str ''value'') = Some (JStr [])"
    then show "retrieve_collector_number (JObj d) = Inr []"
      using fm by (simp add: py_replace_Nil)
  }
  show "[] \<noteq> sentinel" by (rule Nil_neq_sentinel)
next
  fix env obs_ids images
  assume run: "resolver env obs_ids = Inr images"
  note eq = resolver_assigns(1) [OF run]
  show len: "length images = length (processed env obs_ids)"
    using arg_cong [OF eq, of length] by simp
  fix i cn photo
  assume h: "i < length images \<and> processed env obs_ids ! i = (cn, photo)"
  then have i: "i < length (processed env obs_ids)" using len by simp
  from h have "assigned (images ! i) = spec_identifiers [] (processed env obs_ids) ! i"
    using arg_cong [OF eq, of "\<lambda>xs. xs ! i"] by simp
  then have a: "assigned (images ! i) =
      (Some (JStr cn),
       if cn = sentinel then photo_field photo (str ''id'')
       else Some (letter (earlier_of cn (take i (processed env obs_ids)))))"
    using h by (simp add: spec_identifiers_nth [OF i])
  show c: "map_of (images ! i) (str ''collector_number'') = Some (JStr cn)"
    using a by (simp add: assigned_def)
  {
    assume s: "cn = sentinel"
    have "(cn, photo) \<in> set (processed env obs_ids)"
      using h i nth_mem by fastforce
    then show "photo_field photo (str ''id'') \<noteq> None"
      using resolver_assigns(2) [OF run] s by auto
    show "map_of (images ! i) (str ''photo_identifier'') = photo_field photo (str ''id'')"
      using a s by (simp add: assigned_def)
  }
  {
    assume "cn \<noteq> sentinel"
    then show "map_of (images ! i) (str ''photo_identifier'')
                    = Some (letter (earlier_of cn (take i (processed env obs_ids))))"
      using a by (simp add: assigned_def)
  }
  {
    assume e: "cn = []"
    then have p: "map_of (images ! i) (str ''photo_identifier'')
                    = Some (letter (earlier_of [] (take i (processed env obs_ids))))"
      using a Nil_neq_sentinel by (simp add: assigned_def)
    have "str ''images/_'' = str ''images/'' @ str ''_''"
      by (simp add: str_def)
    then show "image_name rp (images ! i)
                    = str ''images/_'' @ [65 + earlier_of [] (take i (processed env obs_ids))]
                        @ str ''.jpg''"
      using image_name_fields [OF c p, of rp] e by (simp add: letter_def)
  }
qed

lemma example_run_empty:
  "resolver (example_env csv (\<lambda>n u. Inr (example_obs [cn_field (JStr [])]
       [example_photo 1 (str ''http://h/5/large.jpg'') [],
        example_photo 2 (str ''http://h/5/large.jpg'') []])))
     [JInt 300] =
   Inr [example_record 1 (str ''http://h/5/large.jpg'') [] (str ''http://h/5/original.jpg'')
          [] (letter 0),
        example_record 2 (str ''http://h/5/large.jpg'') [] (str ''http://h/5/original.jpg'')
          [] (letter 1)]"
  by (simp add: resolver_def example_env_def example_obs_def example_photo_def cn_field_def
        example_record_def process_observation_def retrieve_collector_number_def
        process_photo_def replace_example_url py_replace_Nil sentinel_def
        retrieve_image_letter_def py_ord_def py_chr_def letter_def str_A)

lemma example_processed_empty:
  "processed (example_env (Inr []) (\<lambda>n u. Inr (example_obs [cn_field (JStr [])]
       [example_photo 1 (str ''http://h/5/large.jpg'') [],
        example_photo 2 (str ''http://h/5/large.jpg'') []])))
     [JInt 300] =
     [([], example_photo 1 (str ''http://h/5/large.jpg'') []),
      ([], example_photo 2 (str ''http://h/5/large.jpg'') [])]"
  by (simp add: processed_def photos_in_def example_obs_def cn_field_def
        retrieve_collector_number_def py_replace_Nil)

theorem sentinel_fallback_rule_witness:
  "retrieve_collector_number (example_obs [cn_field (JStr [])] []) = Inr []
   \<and> map (image_name (\<lambda>v. []))
       (projr (resolver (example_env (Inr []) (\<lambda>n u. Inr (example_obs [cn_field (JStr [])]
          [example_photo 1 (str ''http://h/5/large.jpg'') [],
           example_photo 2 (str ''http://h/5/large.jpg'') []])))
         [JInt 300]))
     = [str ''images/_A.jpg'', str ''images/_B.jpg'']"
proof -
  let ?d = "[(str ''observation_field_values'',
              JList ([] @ JObj [(str ''observation_field'',
                                 JObj [(str ''name'', JStr (str ''Collector Number''))]),
                                (str ''value'', JStr [])] # [])),
             (str ''observation_photos'', JList [])]"
  let ?env = "example_env (Inr []) (\<lambda>n u. Inr (example_obs [cn_field (JStr [])]
          [example_photo 1 (str ''http://h/5/large.jpg'') [],
           example_photo 2 (str ''http://h/5/large.jpg'') []]))"
  let ?p1 = "example_photo 1 (str ''http://h/5/large.jpg'') []"
  let ?p2 = "example_photo 2 (str ''http://h/5/large.jpg'') []"
  let ?r1 = "example_record 1 (str ''http://h/5/large.jpg'') [] (str ''http://h/5/original.jpg'')
          [] (letter 0)"
  let ?r2 = "example_record 2 (str ''http://h/5/large.jpg'') [] (str ''http://h/5/original.jpg'')
          [] (letter 1)"
  note inst = sentinel_fallback_rule [of ?d "\<lambda>v. []"]
  have a: "retrieve_collector_number (JObj ?d) = Inr []"
    using inst [THEN conjunct1, rule_format, of "[]" _ "[]"] by simp
  have run: "resolver ?env [JInt 300] = Inr [?r1, ?r2]"
    by (rule example_run_empty)
  note at = inst [THEN conjunct2, rule_format, OF run, THEN conjunct2, rule_format]
  have n0: "image_name (\<lambda>v. []) ([?r1, ?r2] ! 0)
      = str ''images/_'' @ [65 + earlier_of [] (take 0 (processed ?env [JInt 300]))] @ str ''.jpg''"
    using at [of 0 "[]" ?p1] by (simp add: example_processed_empty)
  have n1: "image_name (\<lambda>v. []) ([?r1, ?r2] ! Suc 0)
      = str ''images/_'' @ [65 + earlier_of [] (take (Suc 0) (processed ?env [JInt 300]))]
          @ str ''.jpg''"
    using at [of "Suc 0" "[]" ?p2] by (simp add: example_processed_empty)
  have s: "str ''images/_'' @ 65 # str ''.jpg'' = str ''images/_A.jpg''"
    "str ''images/_'' @ 66 # str ''.jpg'' = str ''images/_B.jpg''"
    by (simp_all add: str_def)
  have "map (image_name (\<lambda>v. [])) [?r1, ?r2] = [str ''images/_A.jpg'', str ''images/_B.jpg'']"
    using n0 n1 by (simp add: example_processed_empty earlier_of_def s)
  then have b: "map (image_name (\<lambda>v. [])) (projr (resolver ?env [JInt 300]))
      = [str ''images/_A.jpg'', str ''images/_B.jpg'']"
    by (simp add: run)
  have c: "retrieve_collector_number (example_obs [cn_field (JStr [])] []) = Inr []"
    using a by (simp add: example_obs_def cn_field_def)
  show ?thesis
    using b c by blast
qed

text \<open>A "Collector Number" entry that is present, with the value "No Collector Number":
  the collector number is the sentinel and the identifier is the photo id.\<close>

theorem sentinel_fallback_counterexample:
  "map_of [(str ''observation_field'', JObj [(str ''name'', JStr (str ''Collector Number''))]),
           (str ''value'', JStr (str ''No Collector Number''))] (str ''value'')
     = Some (JStr (str ''No Collector Number''))
   \<and> retrieve_collector_number
       (example_obs [cn_field (JStr (str ''No Collector Number''))]
          [example_photo 555 (str ''http://h/5/large.jpg'') []]) = Inr sentinel
   \<and> resolver
       (example_env (Inr [])
          (\<lambda>n u. Inr (example_obs [cn_field (JStr (str ''No Collector Number''))]
                        [example_photo 555 (str ''http://h/5/large.jpg'') []])))
       [JInt 100]
     = Inr [example_record 555 (str ''http://h/5/large.jpg'') [] (str ''http://h/5/original.jpg'')
              sentinel (JInt 555)]"
  by (simp add: resolver_def example_obs_def example_photo_def cn_field_def
        example_record_def process_observation_def retrieve_collector_number_def
        process_photo_def replace_example_url replace_sentinel_words)



section \<open>The downloads\<close>

lemma fetch_loop_downloads:
  assumes "\<forall>k u f. urlretrieve env k u f = None"
    and "\<forall>r\<in>set images. url_is_text r"
  shows "snd (fetch_loop env n k images) = None
       \<and> downloads (fst (fetch_loop env n k images)) =
           List.map_filter
             (\<lambda>r. map_option (\<lambda>u. (u, image_name (py_repr env) r)) (present_url r)) images"
  using assms(2)
proof (induction images arbitrary: k)
  case Nil
  show ?case by simp
next
  case (Cons r images)
  have ih: "snd (fetch_loop env n (k + 1) images) = None
       \<and> downloads (fst (fetch_loop env n (k + 1) images)) =
           List.map_filter
             (\<lambda>r. map_option (\<lambda>u. (u, image_name (py_repr env) r)) (present_url r)) images"
    using Cons by simp
  have "url_is_text r" using Cons.prems by simp
  then show ?case
    using ih assms(1)
    by (cases "image_get r (str ''original_size_url'') JNull")
       (auto simp: url_is_text_def present_url_def Let_def
             split: prod.splits)
qed


text \<open>The records of a run satisfy the hypothesis on URLs below.\<close>

lemma resolver_records_url_is_text:
  assumes "resolver env obs_ids = Inr images"
  shows "\<forall>r\<in>set images. url_is_text r"
proof
  fix r
  assume "r \<in> set images"
  with resolver_records [OF assms]
  obtain s where "map_of r (str ''original_size_url'') = Some (JStr s)"
    by blast
  then show "url_is_text r"
    by (simp add: url_is_text_def image_get_def)
qed

text \<open>
  Claim C8. When every download succeeds and every record's \<open>original_size_url\<close> is a
  string, null or absent (as it is for the resolver's records), the fetcher ends without
  error and its downloads are, in the order of the records, those of the records whose URL
  is a non-empty string, each to \<open>images/{collector_number}_{photo_identifier}.jpg\<close>;
  a record with an empty, null or absent URL causes no download.
\<close>

theorem fetcher_downloads:
  assumes "\<forall>k u f. urlretrieve env k u f = None"
    and "\<forall>r\<in>set images. url_is_text r"
  shows "snd (fetch_loop env n k images) = None
       \<and> downloads (fst (fetch_loop env n k images)) =
           List.map_filter
             (\<lambda>r. map_option (\<lambda>u. (u, image_name (py_repr env) r)) (present_url r)) images
       \<and> (\<forall>r cn pid. map_of r (str ''collector_number'') = Some cn
              \<and> map_of r (str ''photo_identifier'') = Some pid \<longrightarrow>
            image_name (py_repr env) r =
              str ''images/'' @ py_str (py_repr env) cn @ str ''_''
                @ py_str (py_repr env) pid @ str ''.jpg'')"
  using fetch_loop_downloads [OF assms] image_name_fields by blast

theorem fetcher_downloads_witness:
  "downloads (fst (fetch_loop (example_env (Inr []) (\<lambda>n u. Inl (OtherError []))) 3 0
      [example_record 1 (str ''http://h/5/large.jpg'') [] (str ''http://h/5/original.jpg'')
         (str ''AB_12'') (letter 0),
       example_record 2 [] [] [] (str ''AB_12'') (letter 1),
       [(str ''original_size_url'', JNull)]]))
   = [(str ''http://h/5/original.jpg'', str ''images/AB_12_A.jpg'')]"
proof -
  let ?env = "example_env (Inr []) (\<lambda>n u. Inl (OtherError []))"
  let ?images = "[example_record 1 (str ''http://h/5/large.jpg'') [] (str ''http://h/5/original.jpg'')
         (str ''AB_12'') (letter 0),
       example_record 2 [] [] [] (str ''AB_12'') (letter 1),
       [(str ''original_size_url'', JNull)]]"
  have h1: "\<forall>k u f. urlretrieve ?env k u f = None"
    by (simp add: example_env_def)
  have h2: "\<forall>r\<in>set ?images. url_is_text r"
    by (simp add: url_is_text_def image_get_def example_record_def)
  have "str ''images/'' @ str ''AB_12'' @ str ''_'' @ [65] @ str ''.jpg'' = str ''images/AB_12_A.jpg''"
    by (simp add: str_def)
  then show ?thesis
    using fetcher_downloads [OF h1 h2, of 3 0, THEN conjunct2, THEN conjunct1]
    by (simp add: present_url_def image_get_def image_name_def
          example_record_def example_env_def letter_def)
qed

section \<open>The metadata file\<close>

text \<open>The table of lines 96 to 98, when the selection succeeds: the 17 renamed headers
  in their order, and one row per record, in the order of the records.\<close>

lemma images_df_shape:
  assumes "images_df images = Inr df"
  shows "columns df =
      [str ''observation_id'', str ''photo_id'', str ''collector_number'',
       str ''photo_identifier'', str ''created_at'', str ''updated_at'',
       str ''inaturalist_page_url'', str ''inaturalist_username'', str ''license'',
       str ''subtype'', str ''original_image_url'', str ''license_code'', str ''attribution'',
       str ''license_name'', str ''license_url'', str ''type'', str ''image_url'']"
    and "rows df = map (\<lambda>r. map (map_of r) keep_columns) images"
proof -
  let ?cols = "frame_columns images"
  from assms have all: "list_all (\<lambda>c. c \<in> set ?cols) keep_columns"
    and df: "df = frame_rename
        \<lparr>columns = keep_columns,
         rows = map (\<lambda>r. map (\<lambda>c. case map_of (zip ?cols r) c of
                                      Some cell \<Rightarrow> cell | None \<Rightarrow> None) keep_columns)
                    (map (\<lambda>d. map (map_of d) ?cols) images)\<rparr> rename_columns"
    by (auto simp: images_df_def frame_select_def DataFrame_def split: if_splits)
  show "columns df =
      [str ''observation_id'', str ''photo_id'', str ''collector_number'',
       str ''photo_identifier'', str ''created_at'', str ''updated_at'',
       str ''inaturalist_page_url'', str ''inaturalist_username'', str ''license'',
       str ''subtype'', str ''original_image_url'', str ''license_code'', str ''attribution'',
       str ''license_name'', str ''license_url'', str ''type'', str ''image_url'']"
    by (simp add: df frame_rename_def keep_columns_def rename_columns_def)
  have cell: "(case map_of (zip ?cols (map (map_of d) ?cols)) c of
                 Some cell \<Rightarrow> cell | None \<Rightarrow> None) = map_of d c"
    if "c \<in> set ?cols" for c and d :: dict
    using that by (simp add: map_of_zip_map)
  have "map (\<lambda>c. case map_of (zip ?cols (map (map_of d) ?cols)) c of
                   Some cell \<Rightarrow> cell | None \<Rightarrow> None) keep_columns
        = map (map_of d) keep_columns" for d :: dict
    using all cell by (auto simp: list_all_iff)
  then show "rows df = map (\<lambda>r. map (map_of r) keep_columns) images"
    by (auto simp: df frame_rename_def comp_def)
qed


text \<open>No run creates \<open>image_metadata.csv\<close>: the only paths a run writes are the
  directory \<open>images\<close> and files below it.\<close>

lemma fetch_loop_paths:
  "p \<in> set (paths_written (fst (fetch_loop env n k images))) \<Longrightarrow> take 7 p = str ''images/''"
proof (induction images arbitrary: k)
  case Nil
  then show ?case by simp
next
  case (Cons r images)
  have len: "length (str ''images/'') = 7"
    by (simp add: str_def)
  show ?case
    using Cons.prems Cons.IH [of "k + 1"] len
    by (auto simp: Let_def image_name_def split: prod.splits option.splits json.splits if_splits)
qed

lemma run_never_writes_metadata:
  "str ''image_metadata.csv'' \<notin> set (paths_written (fst (main env)))"
proof -
  have a: "take 7 (str ''image_metadata.csv'') \<noteq> str ''images/''"
    by (simp add: str_def)
  have b: "str ''image_metadata.csv'' \<notin> set (paths_written (fst (fetch_loop env n k images)))"
    for n k images
    using fetch_loop_paths a by blast
  have c: "resolver_loop env Map.empty [] 0 ids = (evs, r) \<Longrightarrow> paths_written evs = []" for ids evs r
    by (rule resolver_loop_writes_nothing)
  show ?thesis
    unfolding main_def Let_def
    by (auto split: sum.splits option.splits prod.splits if_splits dest!: c)
       (metis b fst_conv)+
qed



lemma url_100:
  "str ''https://www.inaturalist.org/observations/'' @ digits 100 @ str ''.json''
     = str ''https://www.inaturalist.org/observations/100.json''"
  by (simp add: str_def digits.simps)

lemma example_run_full:
  "resolver_loop (example_env (Inr [(str ''id'', [JInt 100])])
         (\<lambda>n u. Inr (example_obs []
            [example_photo 555 (str ''http://h/5/large.jpg'') example_fields])))
      Map.empty [] 0 [JInt 100] =
   ([HttpGet (str ''https://www.inaturalist.org/observations/100.json''), Sleep],
    Inr (Map.empty,
      [example_record 555 (str ''http://h/5/large.jpg'') example_fields
         (str ''http://h/5/original.jpg'') sentinel (JInt 555)],
      1))"
  by (simp add: example_obs_def example_photo_def example_fields_def
        example_record_def process_observation_def retrieve_collector_number_def
        process_photo_def replace_example_url url_100)

lemma example_table_full:
  "images_df [example_record 555 (str ''http://h/5/large.jpg'') example_fields
         (str ''http://h/5/original.jpg'') sentinel (JInt 555)] \<noteq> Inl e"
  by (simp add: images_df_def frame_select_def DataFrame_def frame_columns_def
        keep_columns_def example_record_def example_fields_def split: sum.splits)

lemma example_name_full:
  "image_name (\<lambda>v. []) (example_record 555 (str ''http://h/5/large.jpg'') example_fields
         (str ''http://h/5/original.jpg'') sentinel (JInt 555))
   = str ''images/No_Collector_Number_555.jpg''"
proof -
  have "str ''images/'' @ sentinel @ str ''_'' @ digits 555 @ str ''.jpg''
      = str ''images/No_Collector_Number_555.jpg''"
    by (simp add: str_def sentinel_def digits.simps)
  then show ?thesis
    by (simp add: image_name_def image_get_def example_record_def example_fields_def)
qed

lemma example_fetch_full:
  "fetch_loop (example_env c h) n 0
     [example_record 555 (str ''http://h/5/large.jpg'') example_fields
         (str ''http://h/5/original.jpg'') sentinel (JInt 555)] =
   ([UrlRetrieve (str ''http://h/5/original.jpg'') (str ''images/No_Collector_Number_555.jpg''),
     Sleep], None)"
proof -
  have "image_get (example_record 555 (str ''http://h/5/large.jpg'') example_fields
         (str ''http://h/5/original.jpg'') sentinel (JInt 555)) (str ''original_size_url'') JNull
        = JStr (str ''http://h/5/original.jpg'')"
    by (simp add: image_get_def example_record_def example_fields_def)
  then show ?thesis
    by (simp add: example_name_full)
qed

text \<open>
  Claim C1 says that after a run the metadata CSV exists, with 17 columns and one row per
  record. The script builds that table but has no statement that writes it, although its
  docstring lists the file as an output and line 99 prints that it was written. For one
  observation with one photo that has every kept field, the run below finishes, and the
  paths it has written are the directory \<open>images\<close> and one image.
\<close>

theorem metadata_csv_not_written:
  "main (example_env (Inr [(str ''id'', [JInt 100])])
         (\<lambda>n u. Inr (example_obs []
            [example_photo 555 (str ''http://h/5/large.jpg'') example_fields]))) =
    ([Print (str ''Retrieving photo data for 1 observations''),
      HttpGet (str ''https://www.inaturalist.org/observations/100.json''),
      Sleep,
      Print (str ''Photo retrieval complete; 1 observations processed, 1 total photo data retrieved''),
      Print (str ''Image metadata outputted to image_metadata.csv''),
      Mkdir (str ''images''),
      Print (str ''Created images directory.''),
      Print (str ''Retrieving 1 images''),
      UrlRetrieve (str ''http://h/5/original.jpg'') (str ''images/No_Collector_Number_555.jpg''),
      Sleep,
      Print (str ''Download complete, 1 of 1 images retrieved'')],
     Finished)
   \<and> paths_written (fst (main (example_env (Inr [(str ''id'', [JInt 100])])
         (\<lambda>n u. Inr (example_obs []
            [example_photo 555 (str ''http://h/5/large.jpg'') example_fields])))))
      = [str ''images'', str ''images/No_Collector_Number_555.jpg'']"
proof -
  have d: "digits (Suc 0) = str ''1''"
    by (simp add: digits.simps str_def)
  have s: "str ''Retrieving photo data for '' @ str ''1'' @ str '' observations''
            = str ''Retrieving photo data for 1 observations''"
    "str ''Photo retrieval complete; '' @ str ''1'' @ str '' observations processed, ''
         @ str ''1'' @ str '' total photo data retrieved''
       = str ''Photo retrieval complete; 1 observations processed, 1 total photo data retrieved''"
    "str ''Retrieving '' @ str ''1'' @ str '' images'' = str ''Retrieving 1 images''"
    "str ''Download complete, '' @ str ''1'' @ str '' of '' @ str ''1'' @ str '' images retrieved''
       = str ''Download complete, 1 of 1 images retrieved''"
    by (simp_all add: str_def)
  have m: "main (example_env (Inr [(str ''id'', [JInt 100])])
         (\<lambda>n u. Inr (example_obs []
            [example_photo 555 (str ''http://h/5/large.jpg'') example_fields]))) =
    ([Print (str ''Retrieving photo data for 1 observations''),
      HttpGet (str ''https://www.inaturalist.org/observations/100.json''),
      Sleep,
      Print (str ''Photo retrieval complete; 1 observations processed, 1 total photo data retrieved''),
      Print (str ''Image metadata outputted to image_metadata.csv''),
      Mkdir (str ''images''),
      Print (str ''Created images directory.''),
      Print (str ''Retrieving 1 images''),
      UrlRetrieve (str ''http://h/5/original.jpg'') (str ''images/No_Collector_Number_555.jpg''),
      Sleep,
      Print (str ''Download complete, 1 of 1 images retrieved'')],
     Finished)"
    by (simp add: main_def Let_def example_run_full example_table_full example_fetch_full d s
          del: resolver_loop.simps fetch_loop.simps split: sum.splits)
  show ?thesis
    unfolding m by simp
qed


end
